theory Spec2Isabelle
  imports Main "HOL-Library.Sublist" "HOL-Library.AList" "HOL-Library.Word"
begin

section \<open>A forward proxy with a host blacklist and byte accounting\<close>

text \<open>
  The repository holds two variants of the proxy. \<^verbatim>\<open>src/main.go\<close> is the tunnel-only
  variant: an HTTP \<^verbatim>\<open>CONNECT\<close> handler whose blacklist is scanned for prefixes.
  \<^verbatim>\<open>src/src/main.go\<close> is the SOCKS variant: its blacklist is a set that is looked up
  exactly. Where both files declare a function of the same name, the one of
  \<^verbatim>\<open>src/src/main.go\<close> carries the suffix \<open>_socks\<close>.

  Go strings are byte sequences, so a Go \<^verbatim>\<open>string\<close> is a \<^typ>\<open>string\<close> (a list of
  8-bit \<^typ>\<open>char\<close>). A Go \<^verbatim>\<open>error\<close> is represented by its message, \<^verbatim>\<open>nil\<close> by
  \<^const>\<open>None\<close>.
\<close>

type_synonym error = string

subsection \<open>Functions of package \<^verbatim>\<open>strings\<close>\<close>

text \<open>\<^verbatim>\<open>strings.HasPrefix(s, prefix)\<close> is
  \<^verbatim>\<open>len(s) >= len(prefix) && s[:len(prefix)] == prefix\<close>.\<close>

definition HasPrefix :: "string \<Rightarrow> string \<Rightarrow> bool" where
  "HasPrefix s pfx = (length pfx \<le> length s \<and> take (length pfx) s = pfx)"

text \<open>\<^verbatim>\<open>strings.Contains(s, substr)\<close>: \<open>substr\<close> occurs at some offset of \<open>s\<close>.\<close>

fun Contains :: "string \<Rightarrow> string \<Rightarrow> bool" where
  "Contains [] substr = (substr = [])"
| "Contains (c # s) substr = (HasPrefix (c # s) substr \<or> Contains s substr)"

text \<open>
  \<^verbatim>\<open>strings.TrimSpace\<close> removes every leading and every trailing white space rune, as
  \<^verbatim>\<open>unicode.IsSpace\<close> defines it. The ASCII ones are the bytes of the table \<^verbatim>\<open>asciiSpace\<close>:
  tab, line feed, vertical tab, form feed, carriage return and space.
\<close>

definition asciiSpace :: "char \<Rightarrow> bool" where
  "asciiSpace c = (c \<in> {CHR 0x09, CHR 0x0A, CHR 0x0B, CHR 0x0C, CHR 0x0D, CHR 0x20})"

text \<open>
  The other white space runes, by their UTF-8 encodings: U+0085, U+00A0, U+1680,
  U+2000 to U+200A, U+2028, U+2029, U+202F, U+205F and U+3000. The decoder accepts the
  shortest encoding of a rune only, so a rune is white space exactly when its bytes are
  one of these sequences.
\<close>

definition unicodeSpace :: "string list" where
  "unicodeSpace =
     [[CHR 0xC2, CHR 0x85], [CHR 0xC2, CHR 0xA0], [CHR 0xE1, CHR 0x9A, CHR 0x80]] @
     map (\<lambda>b. [CHR 0xE2, CHR 0x80, b])
       [CHR 0x80, CHR 0x81, CHR 0x82, CHR 0x83, CHR 0x84, CHR 0x85, CHR 0x86, CHR 0x87,
        CHR 0x88, CHR 0x89, CHR 0x8A, CHR 0xA8, CHR 0xA9, CHR 0xAF] @
     [[CHR 0xE2, CHR 0x81, CHR 0x9F], [CHR 0xE3, CHR 0x80, CHR 0x80]]"

text \<open>The width in bytes of the white space rune that \<open>s\<close> starts with, 0 when it starts
  with none.\<close>

definition leadingSpace :: "string \<Rightarrow> nat" where
  "leadingSpace s =
     (case s of
        [] \<Rightarrow> 0
      | c # _ \<Rightarrow>
          if asciiSpace c then 1
          else (case find (\<lambda>w. prefix w s) unicodeSpace of
                  None \<Rightarrow> 0
                | Some w \<Rightarrow> length w))"

text \<open>The same for the rune that \<open>s\<close> ends with (\<^verbatim>\<open>utf8.DecodeLastRuneInString\<close> steps
  back to the nearest byte that starts a rune and decodes from there).\<close>

definition trailingSpace :: "string \<Rightarrow> nat" where
  "trailingSpace s =
     (if s = [] then 0
      else if asciiSpace (last s) then 1
      else (case find (\<lambda>w. suffix w s) unicodeSpace of
              None \<Rightarrow> 0
            | Some w \<Rightarrow> length w))"

lemma leadingSpace_le: "leadingSpace s \<le> length s"
proof -
  have "find (\<lambda>w. prefix w s) unicodeSpace = Some w \<Longrightarrow> length w \<le> length s" for w
    by (auto simp: find_Some_iff dest: prefix_length_le)
  then show ?thesis
    by (cases s) (auto simp: leadingSpace_def split: option.splits)
qed

lemma trailingSpace_le: "trailingSpace s \<le> length s"
proof -
  have "find (\<lambda>w. suffix w s) unicodeSpace = Some w \<Longrightarrow> length w \<le> length s" for w
    by (auto simp: find_Some_iff dest: suffix_length_le)
  then show ?thesis
    by (cases s) (auto simp: trailingSpace_def split: option.splits)
qed

function TrimLeft :: "string \<Rightarrow> string" where
  "TrimLeft s = (if leadingSpace s = 0 then s else TrimLeft (drop (leadingSpace s) s))"
  by pat_completeness auto
termination
proof (relation "measure length")
  fix s :: string
  assume "leadingSpace s \<noteq> 0"
  moreover have "leadingSpace s \<le> length s" by (rule leadingSpace_le)
  ultimately show "(drop (leadingSpace s) s, s) \<in> measure length" by simp
qed simp

function TrimRight :: "string \<Rightarrow> string" where
  "TrimRight s =
     (if trailingSpace s = 0 then s else TrimRight (take (length s - trailingSpace s) s))"
  by pat_completeness auto
termination
proof (relation "measure length")
  fix s :: string
  assume "trailingSpace s \<noteq> 0"
  moreover have "trailingSpace s \<le> length s" by (rule trailingSpace_le)
  ultimately show "(take (length s - trailingSpace s) s, s) \<in> measure length" by simp
qed simp

declare TrimLeft.simps [simp del] TrimRight.simps [simp del]

definition TrimSpace :: "string \<Rightarrow> string" where
  "TrimSpace s = TrimRight (TrimLeft s)"

subsection \<open>The blacklist\<close>

text \<open>
  A Go map is an association list with distinct keys; \<open>m[k] = v\<close> is
  \<^const>\<open>AList.update\<close>, a lookup is \<^const>\<open>map_of\<close>, and the \<^verbatim>\<open>nil\<close> map is the empty list.
  \<^verbatim>\<open>range\<close> visits the keys in an order Go leaves open: the list's order stands for the
  order of one run, and \<open>isBlocked_order\<close> below shows that the result depends on the
  set of keys only.

  The blacklist is a global variable, so loading takes the old value and returns the new
  one. The file is given by what the code observes of it: the error of \<^verbatim>\<open>os.Open\<close>, the
  lines \<^verbatim>\<open>scanner.Text()\<close> returns in order, and the final \<^verbatim>\<open>scanner.Err()\<close>.
\<close>

record policy_file =
  open_err :: "error option"
  scan_lines :: "string list"
  scan_err :: "error option"

type_synonym blacklist = "(string \<times> bool) list"

text \<open>\<^verbatim>\<open>src/main.go\<close>, \<^verbatim>\<open>loadBlacklist\<close>: every line is stored, trimmed.\<close>

definition loadBlacklist :: "blacklist \<Rightarrow> policy_file \<Rightarrow> blacklist \<times> error option" where
  "loadBlacklist blacklist file =
     (case open_err file of
        Some err \<Rightarrow> (blacklist, Some err)
      | None \<Rightarrow>
          (foldl (\<lambda>bl line. AList.update (TrimSpace line) True bl) [] (scan_lines file),
           scan_err file))"

text \<open>\<^verbatim>\<open>src/main.go\<close>, \<^verbatim>\<open>isBlocked\<close>: the loop over the keys returns at the first key that
  is a prefix of the host.\<close>

fun isBlocked :: "blacklist \<Rightarrow> string \<Rightarrow> bool" where
  "isBlocked [] host = False"
| "isBlocked ((blockedURL, _) # rest) host =
     (if HasPrefix host blockedURL then True else isBlocked rest host)"

type_synonym blacklist_socks = "(string \<times> unit) list"

text \<open>\<^verbatim>\<open>src/src/main.go\<close>, \<^verbatim>\<open>loadBlacklist\<close>: a line that is empty once trimmed is skipped.\<close>

definition loadBlacklist_socks ::
    "blacklist_socks \<Rightarrow> policy_file \<Rightarrow> blacklist_socks \<times> error option" where
  "loadBlacklist_socks blacklist file =
     (case open_err file of
        Some err \<Rightarrow> (blacklist, Some err)
      | None \<Rightarrow>
          (foldl (\<lambda>bl text.
                    let line = TrimSpace text
                    in if line \<noteq> [] then AList.update line () bl else bl)
             [] (scan_lines file),
           scan_err file))"

text \<open>\<^verbatim>\<open>src/src/main.go\<close>, \<^verbatim>\<open>isBlacklisted\<close>: a map lookup.\<close>

definition isBlacklisted :: "blacklist_socks \<Rightarrow> string \<Rightarrow> bool" where
  "isBlacklisted blacklist address = (map_of blacklist address \<noteq> None)"

subsection \<open>Formatting numbers\<close>

text \<open>Decimal digits of an unsigned number, as \<^verbatim>\<open>%d\<close> and the package \<^verbatim>\<open>net\<close> print them, and
  the lower-case hexadecimal digits without leading zeros of \<^verbatim>\<open>appendHex\<close>.\<close>

definition digit :: "nat \<Rightarrow> char" where
  "digit d = ''0123456789abcdef'' ! d"

function uitoa :: "nat \<Rightarrow> string" where
  "uitoa n = (if n < 10 then [digit n] else uitoa (n div 10) @ [digit (n mod 10)])"
  by pat_completeness auto
termination
  by (relation "measure id") auto

function appendHex :: "nat \<Rightarrow> string" where
  "appendHex n = (if n < 16 then [digit n] else appendHex (n div 16) @ [digit (n mod 16)])"
  by pat_completeness auto
termination
  by (relation "measure id") auto

declare uitoa.simps [simp del] appendHex.simps [simp del]

definition itoa :: "int \<Rightarrow> string" where
  "itoa i = (if i < 0 then ''-'' @ uitoa (nat (- i)) else uitoa (nat i))"

subsection \<open>Metered streams\<close>

text \<open>
  A counter is an \<^verbatim>\<open>int64\<close>: a 64-bit word, read as a signed number by \<^const>\<open>sint\<close>;
  \<^verbatim>\<open>atomic.AddInt64\<close> adds with wrap-around. The stream under a wrapper belongs to the
  environment, so a call of \<^verbatim>\<open>Read\<close> or \<^verbatim>\<open>Write\<close> takes what the underlying call reports: the
  count \<open>n\<close> (the value of a Go \<^verbatim>\<open>int\<close>) and the error. \<^verbatim>\<open>int64(n)\<close> is \<^const>\<open>word_of_int\<close>.
\<close>

type_synonym int64 = "64 word"
type_synonym io_result = "int \<times> error option"

text \<open>\<^verbatim>\<open>src/main.go\<close>: \<^verbatim>\<open>countingConn\<close> and its methods.\<close>

record countingConn =
  bytesWritten :: int64
  bytesRead :: int64

definition countingConn_Write :: "countingConn \<Rightarrow> io_result \<Rightarrow> countingConn \<times> io_result" where
  "countingConn_Write c r =
     (case r of (n, err) \<Rightarrow> (c\<lparr>bytesWritten := bytesWritten c + word_of_int n\<rparr>, (n, err)))"

definition countingConn_Read :: "countingConn \<Rightarrow> io_result \<Rightarrow> countingConn \<times> io_result" where
  "countingConn_Read c r =
     (case r of (n, err) \<Rightarrow> (c\<lparr>bytesRead := bytesRead c + word_of_int n\<rparr>, (n, err)))"

text \<open>\<^verbatim>\<open>src/src/main.go\<close>: \<^verbatim>\<open>countingWriter\<close> and \<^verbatim>\<open>countingReader\<close>. Their counters are the
  fields \<^verbatim>\<open>bytesWritten\<close> and \<^verbatim>\<open>bytesRead\<close> of the source.\<close>

record countingWriter =
  cw_bytesWritten :: int64

record countingReader =
  cr_bytesRead :: int64

definition countingWriter_Write ::
    "countingWriter \<Rightarrow> io_result \<Rightarrow> countingWriter \<times> io_result" where
  "countingWriter_Write c r =
     (case r of (n, err) \<Rightarrow> (c\<lparr>cw_bytesWritten := cw_bytesWritten c + word_of_int n\<rparr>, (n, err)))"

definition countingReader_Read ::
    "countingReader \<Rightarrow> io_result \<Rightarrow> countingReader \<times> io_result" where
  "countingReader_Read c r =
     (case r of (n, err) \<Rightarrow> (c\<lparr>cr_bytesRead := cr_bytesRead c + word_of_int n\<rparr>, (n, err)))"

text \<open>A sequence of calls on one \<^verbatim>\<open>countingConn\<close>, each with what the underlying call
  reports.\<close>

datatype call = Write io_result | Read io_result

fun do_call :: "countingConn \<Rightarrow> call \<Rightarrow> countingConn" where
  "do_call c (Write r) = fst (countingConn_Write c r)"
| "do_call c (Read r) = fst (countingConn_Read c r)"

definition do_calls :: "countingConn \<Rightarrow> call list \<Rightarrow> countingConn" where
  "do_calls c cs = foldl do_call c cs"

text \<open>A call sequence is in range for \<open>c\<close> when every call reports a count that is not
  negative and neither counter is taken beyond the largest \<^verbatim>\<open>int64\<close>.\<close>

fun in_range :: "countingConn \<Rightarrow> call list \<Rightarrow> bool" where
  "in_range c [] = True"
| "in_range c (Write r # cs) =
     (0 \<le> fst r \<and> sint (bytesWritten c) + fst r < 2 ^ 63 \<and> in_range (do_call c (Write r)) cs)"
| "in_range c (Read r # cs) =
     (0 \<le> fst r \<and> sint (bytesRead c) + fst r < 2 ^ 63 \<and> in_range (do_call c (Read r)) cs)"

subsection \<open>Addresses of package \<^verbatim>\<open>net\<close>\<close>

text \<open>
  A \<^verbatim>\<open>net.IP\<close> is a byte slice, of length 4 or 16 when it is an address; a result that
  may be \<^verbatim>\<open>nil\<close> is an option. The methods below are the ones
  \<^verbatim>\<open>extractIPv4FromRemoteAddr\<close> calls, as the package defines them.
\<close>

type_synonym IP = "8 word list"

definition v4InV6Prefix :: IP where
  "v4InV6Prefix = [0, 0, 0, 0, 0, 0, 0, 0, 0, 0, 0xff, 0xff]"

definition IPv6loopback :: IP where
  "IPv6loopback = [0, 0, 0, 0, 0, 0, 0, 0, 0, 0, 0, 0, 0, 0, 0, 1]"

text \<open>\<^verbatim>\<open>To4\<close>: the 4-byte form of an IPv4 address (a 4-byte slice, or a 16-byte one
  whose first ten bytes are zero and whose next two are \<open>0xff\<close>), \<^verbatim>\<open>nil\<close> for anything else.\<close>

definition To4 :: "IP \<Rightarrow> IP option" where
  "To4 ip =
     (if length ip = 4 then Some ip
      else if length ip = 16 \<and> take 10 ip = replicate 10 0 \<and> ip ! 10 = 0xff \<and> ip ! 11 = 0xff
        then Some (drop 12 ip)
      else None)"

definition IP_Equal :: "IP \<Rightarrow> IP \<Rightarrow> bool" where
  "IP_Equal ip x =
     (if length ip = length x then ip = x
      else if length ip = 4 \<and> length x = 16 then take 12 x = v4InV6Prefix \<and> ip = drop 12 x
      else if length ip = 16 \<and> length x = 4 then take 12 ip = v4InV6Prefix \<and> drop 12 ip = x
      else False)"

definition IsLoopback :: "IP \<Rightarrow> bool" where
  "IsLoopback ip =
     (case To4 ip of
        Some ip4 \<Rightarrow> ip4 ! 0 = 127
      | None \<Rightarrow> IP_Equal ip IPv6loopback)"

text \<open>The dotted decimal form of four bytes.\<close>

definition dotted :: "IP \<Rightarrow> string" where
  "dotted p4 =
     uitoa (unat (p4 ! 0)) @ ''.'' @ uitoa (unat (p4 ! 1)) @ ''.'' @
     uitoa (unat (p4 ! 2)) @ ''.'' @ uitoa (unat (p4 ! 3))"

text \<open>The eight 16-bit groups of a 16-byte address.\<close>

fun groups :: "IP \<Rightarrow> nat list" where
  "groups (a # b # rest) = (256 * unat a + unat b) # groups rest"
| "groups _ = []"

text \<open>The longest run of two or more zero groups, the first one among equals, as the
  pair of its first index and the index after its last.\<close>

definition longestZeroRun :: "nat list \<Rightarrow> (nat \<times> nat) option" where
  "longestZeroRun gs =
     foldl (\<lambda>best i.
              let j = i + length (takeWhile (\<lambda>g. g = 0) (drop i gs));
                  l = j - i
              in if 2 \<le> l \<and> (case best of None \<Rightarrow> 0 | Some (e0, e1) \<Rightarrow> e1 - e0) < l
                 then Some (i, j) else best)
       None [0 ..< length gs]"

fun joinColon :: "string list \<Rightarrow> string" where
  "joinColon [] = []"
| "joinColon [x] = x"
| "joinColon (x # y # ys) = x @ '':'' @ joinColon (y # ys)"

definition string16 :: "nat list \<Rightarrow> string" where
  "string16 gs =
     (case longestZeroRun gs of
        None \<Rightarrow> joinColon (map appendHex gs)
      | Some (e0, e1) \<Rightarrow>
          joinColon (map appendHex (take e0 gs)) @ ''::'' @ joinColon (map appendHex (drop e1 gs)))"

definition hexString :: "IP \<Rightarrow> string" where
  "hexString b = concat (map (\<lambda>x. [digit (unat x div 16), digit (unat x mod 16)]) b)"

text \<open>\<^verbatim>\<open>String\<close>: \<^verbatim>\<open><nil>\<close> for the empty slice, the dotted form of an IPv4 address, the
  form of RFC 5952 for any other 16-byte address, and \<^verbatim>\<open>?\<close> with the bytes in hexadecimal
  otherwise.\<close>

definition IP_String :: "IP \<Rightarrow> string" where
  "IP_String ip =
     (if length ip = 0 then ''<nil>''
      else case To4 ip of
        Some p4 \<Rightarrow> dotted p4
      | None \<Rightarrow> if length ip \<noteq> 16 then ''?'' @ hexString ip else string16 (groups ip))"

text \<open>
  The parsers and the dialer of package \<^verbatim>\<open>net\<close> are taken as they answer:
  \<^verbatim>\<open>net.SplitHostPort\<close> gives an error or the host and the port, \<^verbatim>\<open>net.ParseIP\<close> an address
  or \<^verbatim>\<open>nil\<close>, \<^verbatim>\<open>net.Dial(network, address)\<close> the error of the attempt (\<^verbatim>\<open>nil\<close> when it
  connects). Every theorem below holds whatever they answer.
\<close>

record net_lib =
  SplitHostPort :: "string \<Rightarrow> error + string \<times> string"
  ParseIP :: "string \<Rightarrow> IP option"
  Dial :: "string \<Rightarrow> string \<Rightarrow> error option"

subsection \<open>What a handler does\<close>

text \<open>
  A handler is modelled by the sequence of its effects, in the order its goroutine
  performs them. \<^verbatim>\<open>ClientConn\<close> is the accepted connection (\<^verbatim>\<open>client\<close>, \<^verbatim>\<open>conn\<close>),
  \<^verbatim>\<open>ServerConn\<close> the dialled one (\<^verbatim>\<open>server\<close>, \<^verbatim>\<open>targetConn\<close>). \<open>NetDial network address\<close> is
  \<^verbatim>\<open>net.Dial\<close>; \<open>Socks5Dial proxy network address\<close> is \<^verbatim>\<open>Dial(network, address)\<close> on the
  dialer that \<^verbatim>\<open>proxy.SOCKS5\<close> made for the proxy at \<open>proxy\<close>.
\<close>

datatype endpoint = ClientConn | ServerConn

datatype event =
    Log string
  | ConnWrite endpoint string
  | ConnClose endpoint
  | NetDial string string
  | Socks5Dial string string string

definition CRLF :: string where
  "CRLF = [CHR 0x0D, CHR 0x0A]"

definition teapot :: string where
  "teapot = ''HTTP/1.1 418 I'm a teapot'' @ CRLF @ CRLF"

text \<open>\<^verbatim>\<open>src/main.go\<close>, \<^verbatim>\<open>extractIPv4FromRemoteAddr\<close>: the log line and the result.
  \<^verbatim>\<open>SplitHostPort\<close> returns the empty host with an error.\<close>

definition extractIPv4FromRemoteAddr :: "net_lib \<Rightarrow> string \<Rightarrow> event list \<times> string" where
  "extractIPv4FromRemoteAddr net remoteAddr =
     (let split = SplitHostPort net remoteAddr;
          host = (case split of Inl _ \<Rightarrow> [] | Inr (h, _) \<Rightarrow> h);
          logged = [Log (''remoteAddr: '' @ remoteAddr @ '', host: '' @ host)]
      in case split of
           Inl err \<Rightarrow> (logged, remoteAddr)
         | Inr _ \<Rightarrow>
             (case ParseIP net host of
                None \<Rightarrow> (logged, remoteAddr)
              | Some ip \<Rightarrow>
                  if To4 ip \<noteq> None then (logged, IP_String ip)
                  else if IsLoopback ip \<and> HasPrefix (IP_String ip) ''::ffff:''
                    then (logged, drop 7 (IP_String ip))
                  else (logged, remoteAddr)))"

subsection \<open>The relay: two copies on two goroutines\<close>

text \<open>
  Both handlers end with \<^verbatim>\<open>go io.Copy(a, b)\<close> followed by \<^verbatim>\<open>io.Copy(b, a)\<close>, a log line with
  the counters, and the return. \<^verbatim>\<open>io.Copy\<close> is the loop of \<^verbatim>\<open>copyBuffer\<close>: a \<^verbatim>\<open>Read\<close> of the
  source, then, when it reported \<open>nr > 0\<close>, a \<^verbatim>\<open>Write\<close> of these bytes to the destination;
  the loop ends at a write error, a short write or any read error (end of stream is one).
  What the connections report is the environment's: a list of answers for the reads and
  one for the writes, taken in order. With no answer left, the call blocks.

  The two goroutines interleave: a schedule is the list of the tasks that take the next
  steps. A step of a copy is one call of \<^verbatim>\<open>Read\<close> or \<^verbatim>\<open>Write\<close>; reading both counters
  for the log line and returning is one step of the handler.
\<close>

datatype task = Handler | Background

datatype copy_stage = Reading | Writing int "error option" | Returned

record copier =
  stage :: copy_stage
  src_reads :: "io_result list"
  dst_writes :: "io_result list"

definition errInvalidWrite :: error where
  "errInvalidWrite = ''invalid write result''"

text \<open>A \<^verbatim>\<open>Read\<close> or \<^verbatim>\<open>Write\<close> on a connection that is not wrapped touches no counter.\<close>

definition raw :: "'c \<Rightarrow> io_result \<Rightarrow> 'c \<times> io_result" where
  "raw c r = (c, r)"

definition copy_step ::
    "('c \<Rightarrow> io_result \<Rightarrow> 'c \<times> io_result) \<Rightarrow> ('c \<Rightarrow> io_result \<Rightarrow> 'c \<times> io_result) \<Rightarrow>
     copier \<times> 'c \<Rightarrow> copier \<times> 'c" where
  "copy_step src_Read dst_Write s =
     (case s of (cp, c) \<Rightarrow>
        (case stage cp of
           Reading \<Rightarrow>
             (case src_reads cp of
                [] \<Rightarrow> (cp, c)
              | r # rs \<Rightarrow>
                  (case src_Read c r of (c', nr, er) \<Rightarrow>
                     (cp\<lparr>src_reads := rs,
                         stage := (if 0 < nr then Writing nr er
                                   else if er \<noteq> None then Returned else Reading)\<rparr>, c')))
         | Writing nr er \<Rightarrow>
             (case dst_writes cp of
                [] \<Rightarrow> (cp, c)
              | w # ws \<Rightarrow>
                  (case dst_Write c w of (c', nw, ew) \<Rightarrow>
                     let invalid = (nw < 0 \<or> nr < nw);
                         nw' = (if invalid then 0 else nw);
                         ew' = (if invalid \<and> ew = None then Some errInvalidWrite else ew)
                     in (cp\<lparr>dst_writes := ws,
                            stage := (if ew' \<noteq> None then Returned
                                      else if nr \<noteq> nw' then Returned
                                      else if er \<noteq> None then Returned else Reading)\<rparr>, c')))
         | Returned \<Rightarrow> (cp, c)))"

record relay_env =
  client_reads :: "io_result list"
  client_writes :: "io_result list"
  server_reads :: "io_result list"
  server_writes :: "io_result list"

record 'c relay =
  background_copy :: copier
  handler_copy :: copier
  counters :: 'c
  returned :: bool
  trace :: "event list"

text \<open>The background copy reads the client and writes the server, the handler's copy
  reads the server and writes the client.\<close>

definition relay_init :: "relay_env \<Rightarrow> 'c \<Rightarrow> 'c relay" where
  "relay_init env c =
     \<lparr>background_copy =
        \<lparr>stage = Reading, src_reads = client_reads env, dst_writes = server_writes env\<rparr>,
      handler_copy =
        \<lparr>stage = Reading, src_reads = server_reads env, dst_writes = client_writes env\<rparr>,
      counters = c, returned = False, trace = []\<rparr>"

text \<open>The handler's copy is between the two connections themselves in both files; the
  background copy goes through \<open>bg_Read\<close> and \<open>bg_Write\<close>. When its copy has returned, the
  handler performs \<open>finish\<close> on the counters as they are then.\<close>

definition relay_step ::
    "('c \<Rightarrow> io_result \<Rightarrow> 'c \<times> io_result) \<Rightarrow> ('c \<Rightarrow> io_result \<Rightarrow> 'c \<times> io_result) \<Rightarrow>
     ('c \<Rightarrow> event list) \<Rightarrow> 'c relay \<Rightarrow> task \<Rightarrow> 'c relay" where
  "relay_step bg_Read bg_Write finish s t =
     (case t of
        Background \<Rightarrow>
          (case copy_step bg_Read bg_Write (background_copy s, counters s) of
             (cp, c) \<Rightarrow> s\<lparr>background_copy := cp, counters := c\<rparr>)
      | Handler \<Rightarrow>
          if returned s then s
          else if stage (handler_copy s) \<noteq> Returned then
            (case copy_step raw raw (handler_copy s, counters s) of
               (cp, c) \<Rightarrow> s\<lparr>handler_copy := cp\<rparr>)
          else s\<lparr>returned := True, trace := trace s @ finish (counters s)\<rparr>)"

definition relay_run ::
    "('c \<Rightarrow> io_result \<Rightarrow> 'c \<times> io_result) \<Rightarrow> ('c \<Rightarrow> io_result \<Rightarrow> 'c \<times> io_result) \<Rightarrow>
     ('c \<Rightarrow> event list) \<Rightarrow> 'c relay \<Rightarrow> task list \<Rightarrow> 'c relay" where
  "relay_run bg_Read bg_Write finish s sched = foldl (relay_step bg_Read bg_Write finish) s sched"

subsection \<open>\<^verbatim>\<open>src/main.go\<close>: the CONNECT handler\<close>

text \<open>The accepted connection, by what \<^verbatim>\<open>RemoteAddr().String()\<close> returns; the request, by
  the two fields the handler reads (\<^verbatim>\<open>req.Method\<close> and \<^verbatim>\<open>req.URL.Host\<close>).\<close>

record accepted =
  RemoteAddr :: string

record request =
  Method :: string
  Host :: string

definition established :: string where
  "established =
     ''HTTP/1.1 200 Connection Established'' @ CRLF @
     ''Proxy-agent: go-tunnel-proxy'' @ CRLF @
     ''Connection: close'' @ CRLF @ CRLF"

text \<open>The counters of \<^verbatim>\<open>clientCounting\<close> and \<^verbatim>\<open>serverCounting\<close> start at zero.\<close>

definition new_countingConn :: countingConn where
  "new_countingConn = \<lparr>bytesWritten = 0, bytesRead = 0\<rparr>"

text \<open>The log line of the totals and the deferred \<^verbatim>\<open>server.Close()\<close> and \<^verbatim>\<open>client.Close()\<close>.\<close>

definition finish_connect :: "string \<Rightarrow> countingConn \<times> countingConn \<Rightarrow> event list" where
  "finish_connect remoteAddr c =
     (case c of (clientCounting, serverCounting) \<Rightarrow>
        [Log (''[Client '' @ remoteAddr @ ''] Data transferred: sent '' @
              itoa (sint (bytesWritten clientCounting)) @ '' bytes, received '' @
              itoa (sint (bytesRead serverCounting)) @ '' bytes''),
         ConnClose ServerConn, ConnClose ClientConn])"

text \<open>The relay of \<^verbatim>\<open>handleClientConnection\<close>: both copies are given \<^verbatim>\<open>client\<close> and
  \<^verbatim>\<open>server\<close> themselves, not the two \<^verbatim>\<open>countingConn\<close> wrappers.\<close>

definition relay_connect ::
    "string \<Rightarrow> relay_env \<Rightarrow> task list \<Rightarrow> (countingConn \<times> countingConn) relay" where
  "relay_connect remoteAddr env sched =
     relay_run raw raw (finish_connect remoteAddr)
       (relay_init env (new_countingConn, new_countingConn)) sched"

text \<open>
  \<^verbatim>\<open>handleClientConnection\<close>. \<open>readRequest\<close> is what \<^verbatim>\<open>http.ReadRequest\<close> returns for the
  bytes the client sent. The deferred \<^verbatim>\<open>client.Close()\<close> ends every path that returns.
\<close>

definition handleClientConnection ::
    "net_lib \<Rightarrow> blacklist \<Rightarrow> accepted \<Rightarrow> error + request \<Rightarrow> relay_env \<Rightarrow> task list \<Rightarrow>
     event list" where
  "handleClientConnection net blacklist client readRequest env sched =
     (case extractIPv4FromRemoteAddr net (RemoteAddr client) of (logged, remoteAddr) \<Rightarrow>
        logged @ [Log (''[Client '' @ remoteAddr @ ''] Received connection'')] @
        (case readRequest of
           Inl err \<Rightarrow>
             [Log (''[Client '' @ remoteAddr @ ''] Error reading request: '' @ err),
              ConnClose ClientConn]
         | Inr req \<Rightarrow>
             if Method req \<noteq> ''CONNECT'' then
               [Log (''[Client '' @ remoteAddr @ '']Invalid request method: '' @ Method req),
                ConnClose ClientConn]
             else
               Log (''[Client '' @ remoteAddr @ ''] Target host: '' @ Host req) #
               (if isBlocked blacklist (Host req) then
                  [Log (''[Client: '' @ remoteAddr @ ''] Blocked host: '' @ Host req),
                   ConnWrite ClientConn teapot,
                   ConnClose ClientConn]
                else
                  let hostPort =
                        (if \<not> Contains (Host req) '':'' then Host req @ '':443'' else Host req)
                  in NetDial ''tcp'' hostPort #
                     (case Dial net ''tcp'' hostPort of
                        Some err \<Rightarrow>
                          [Log (''[Client '' @ remoteAddr @ ''] Error connecting to '' @
                                hostPort @ '': '' @ err),
                           ConnClose ClientConn]
                      | None \<Rightarrow>
                          ConnWrite ClientConn established #
                          trace (relay_connect remoteAddr env sched)))))"

subsection \<open>\<^verbatim>\<open>src/src/main.go\<close>: the SOCKS handler and the accept loop\<close>

text \<open>
  \<^verbatim>\<open>proxy.SOCKS5(network, address, nil, proxy.Direct)\<close> is taken by its error (\<^verbatim>\<open>nil\<close> when
  it returns a dialer), and the dialer's \<^verbatim>\<open>Dial(network, address)\<close> by its error.
\<close>

record socks_lib =
  SOCKS5 :: "string \<Rightarrow> string \<Rightarrow> error option"
  SOCKS5_Dial :: "string \<Rightarrow> string \<Rightarrow> error option"

definition new_countingReader :: countingReader where
  "new_countingReader = \<lparr>cr_bytesRead = 0\<rparr>"

definition new_countingWriter :: countingWriter where
  "new_countingWriter = \<lparr>cw_bytesWritten = 0\<rparr>"

text \<open>\<^verbatim>\<open>io.Copy(cw, cr)\<close> reads through \<^verbatim>\<open>cr\<close> and writes through \<^verbatim>\<open>cw\<close>.\<close>

definition cr_Read ::
    "countingReader \<times> countingWriter \<Rightarrow> io_result \<Rightarrow> (countingReader \<times> countingWriter) \<times> io_result"
  where
  "cr_Read c r = (case c of (cr, cw) \<Rightarrow> (case countingReader_Read cr r of (cr', r') \<Rightarrow> ((cr', cw), r')))"

definition cw_Write ::
    "countingReader \<times> countingWriter \<Rightarrow> io_result \<Rightarrow> (countingReader \<times> countingWriter) \<times> io_result"
  where
  "cw_Write c r = (case c of (cr, cw) \<Rightarrow> (case countingWriter_Write cw r of (cw', r') \<Rightarrow> ((cr, cw'), r')))"

text \<open>The log line of the totals and the deferred \<^verbatim>\<open>targetConn.Close()\<close>.\<close>

definition finish_socks :: "string \<Rightarrow> countingReader \<times> countingWriter \<Rightarrow> event list" where
  "finish_socks targetAddr c =
     (case c of (cr, cw) \<Rightarrow>
        [Log (''SOCKS request to '' @ targetAddr @ '' transferred '' @
              itoa (sint (cr_bytesRead cr)) @ '' bytes in and '' @
              itoa (sint (cw_bytesWritten cw)) @ '' bytes out'' @ [CHR 0x0A]),
         ConnClose ServerConn])"

definition relay_socks ::
    "string \<Rightarrow> relay_env \<Rightarrow> task list \<Rightarrow> (countingReader \<times> countingWriter) relay" where
  "relay_socks targetAddr env sched =
     relay_run cr_Read cw_Write (finish_socks targetAddr)
       (relay_init env (new_countingReader, new_countingWriter)) sched"

definition handleSOCKS ::
    "net_lib \<Rightarrow> socks_lib \<Rightarrow> blacklist_socks \<Rightarrow> accepted \<Rightarrow> string \<Rightarrow> relay_env \<Rightarrow> task list \<Rightarrow>
     event list" where
  "handleSOCKS net socks blacklist conn targetAddr env sched =
     Log (''[SOCKS] [Client '' @ RemoteAddr conn @ ''] target: '' @ targetAddr) #
     (case SplitHostPort net targetAddr of
        Inl err \<Rightarrow>
          [Log (''[SOCKS] [Client '' @ RemoteAddr conn @ ''] Failed to parse target address: '' @
                err)]
      | Inr (host, port) \<Rightarrow>
          if isBlacklisted blacklist host then
            [ConnWrite ClientConn teapot, ConnClose ClientConn]
          else
            (case SOCKS5 socks ''tcp'' ''127.0.0.1:1080'' of
               Some err \<Rightarrow>
                 [Log (''[SOCKS] [Client '' @ RemoteAddr conn @
                       ''] Failed to create SOCKS5 dialer: '' @ err)]
             | None \<Rightarrow>
                 Socks5Dial ''127.0.0.1:1080'' ''tcp'' targetAddr #
                 (case SOCKS5_Dial socks ''tcp'' targetAddr of
                    Some err \<Rightarrow>
                      [Log (''[SOCKS] [Client '' @ RemoteAddr conn @
                            ''] Failed to connect to target: '' @ err)]
                  | None \<Rightarrow> trace (relay_socks targetAddr env sched))))"

text \<open>
  The loop of \<^verbatim>\<open>main\<close>, over the results of \<^verbatim>\<open>listener.Accept()\<close>: an error is logged, a
  connection gets a goroutine that runs \<^verbatim>\<open>handleSOCKS(conn, conn.RemoteAddr().String())\<close>.
\<close>

datatype started = Logged string | Go_handleSOCKS accepted string

fun accept_loop :: "(error + accepted) list \<Rightarrow> started list" where
  "accept_loop [] = []"
| "accept_loop (Inl err # rest) =
     Logged (''Failed to accept connection: '' @ err) # accept_loop rest"
| "accept_loop (Inr conn # rest) = Go_handleSOCKS conn (RemoteAddr conn) # accept_loop rest"

text \<open>The dial attempts in a sequence of effects, each as the address it goes to.\<close>

fun dialled :: "event list \<Rightarrow> string list" where
  "dialled [] = []"
| "dialled (NetDial network address # es) = address # dialled es"
| "dialled (Socks5Dial via network address # es) = address # dialled es"
| "dialled (e # es) = dialled es"

text \<open>The effects of a handler other than its log lines.\<close>

fun is_Log :: "event \<Rightarrow> bool" where
  "is_Log (Log msg) = True"
| "is_Log e = False"

definition effects :: "event list \<Rightarrow> event list" where
  "effects es = filter (\<lambda>e. \<not> is_Log e) es"

section \<open>The blacklist\<close>

subsection \<open>Trimming\<close>

lemma TrimLeft_leading: "leadingSpace (TrimLeft s) = 0"
  by (induction s rule: TrimLeft.induct) (subst TrimLeft.simps, simp)

lemma TrimRight_trailing: "trailingSpace (TrimRight s) = 0"
  by (induction s rule: TrimRight.induct) (subst TrimRight.simps, simp)

lemma TrimLeft_suffix: "suffix (TrimLeft s) s"
proof (induction s rule: TrimLeft.induct)
  case (1 s)
  show ?case
  proof (cases "leadingSpace s = 0")
    case True
    then show ?thesis by (subst TrimLeft.simps) simp
  next
    case False
    with "1" have "suffix (TrimLeft (drop (leadingSpace s) s)) (drop (leadingSpace s) s)"
      by simp
    then have "suffix (TrimLeft (drop (leadingSpace s) s)) s"
      by (rule suffix_order.trans) (rule suffix_drop)
    with False show ?thesis by (subst TrimLeft.simps) simp
  qed
qed

lemma TrimRight_prefix: "prefix (TrimRight s) s"
proof (induction s rule: TrimRight.induct)
  case (1 s)
  show ?case
  proof (cases "trailingSpace s = 0")
    case True
    then show ?thesis by (subst TrimRight.simps) simp
  next
    case False
    with "1" have "prefix (TrimRight (take (length s - trailingSpace s) s))
        (take (length s - trailingSpace s) s)"
      by simp
    then have "prefix (TrimRight (take (length s - trailingSpace s) s)) s"
      by (rule prefix_order.trans) (rule take_is_prefix)
    with False show ?thesis by (subst TrimRight.simps) simp
  qed
qed

lemma unicodeSpace_nonempty: "w \<in> set unicodeSpace \<Longrightarrow> w \<noteq> []"
  by (auto simp: unicodeSpace_def)

text \<open>Cutting the end of a string off brings no white space to its front.\<close>

lemma leadingSpace_prefix:
  assumes "leadingSpace s = 0" and "prefix t s"
  shows "leadingSpace t = 0"
proof (cases t)
  case Nil
  then show ?thesis by (simp add: leadingSpace_def)
next
  case (Cons c t')
  with assms(2) obtain s' where s: "s = c # s'"
    by (cases s) auto
  from assms(1) s have c: "\<not> asciiSpace c"
    by (auto simp: leadingSpace_def split: if_splits)
  from assms(1) s c have none: "find (\<lambda>w. prefix w s) unicodeSpace = None"
    by (auto simp: leadingSpace_def find_Some_iff split: option.splits
        dest: unicodeSpace_nonempty [OF nth_mem])
  have "find (\<lambda>w. prefix w t) unicodeSpace = None"
    using none assms(2) by (auto simp: find_None_iff dest: prefix_order.trans)
  with c Cons show ?thesis by (simp add: leadingSpace_def)
qed

text \<open>What \<^const>\<open>TrimSpace\<close> returns starts and ends with no white space rune, and it is
  a part of the input.\<close>

lemma TrimSpace_trimmed: "leadingSpace (TrimSpace s) = 0 \<and> trailingSpace (TrimSpace s) = 0"
  unfolding TrimSpace_def
  using leadingSpace_prefix [OF TrimLeft_leading TrimRight_prefix] TrimRight_trailing
  by simp

lemma TrimSpace_inside: "\<exists>l r. s = l @ TrimSpace s @ r"
proof -
  obtain l where "s = l @ TrimLeft s"
    using TrimLeft_suffix [of s] by (auto simp: suffix_def)
  moreover obtain r where "TrimLeft s = TrimRight (TrimLeft s) @ r"
    using TrimRight_prefix [of "TrimLeft s"] by (auto simp: prefix_def)
  ultimately have "s = l @ TrimSpace s @ r"
    by (simp add: TrimSpace_def)
  then show ?thesis by blast
qed

lemma TrimLeft_ascii: "\<forall>c \<in> set s. asciiSpace c \<Longrightarrow> TrimLeft s = []"
proof (induction s)
  case Nil
  show ?case by (subst TrimLeft.simps) (simp add: leadingSpace_def)
next
  case (Cons c s)
  then have "leadingSpace (c # s) = 1" by (simp add: leadingSpace_def)
  with Cons show ?case by (subst TrimLeft.simps) simp
qed

lemma TrimRight_Nil: "TrimRight [] = []"
  by (subst TrimRight.simps) (simp add: trailingSpace_def)

text \<open>A line of ASCII white space only, the empty line among them, is trimmed to the
  empty string.\<close>

lemma TrimSpace_blank: "\<forall>c \<in> set s. asciiSpace c \<Longrightarrow> TrimSpace s = []"
  by (simp add: TrimSpace_def TrimLeft_ascii TrimRight_Nil)

subsection \<open>The keys that loading stores\<close>

lemma keys_foldl_update:
  "fst ` set (foldl (\<lambda>bl x. AList.update (f x) v bl) acc xs) = fst ` set acc \<union> f ` set xs"
  by (induction xs arbitrary: acc) (simp_all add: dom_update Un_commute insert_commute)

lemma distinct_foldl_update:
  "distinct (map fst acc) \<Longrightarrow>
   distinct (map fst (foldl (\<lambda>bl x. AList.update (f x) v bl) acc xs))"
  by (induction xs arbitrary: acc) (simp_all add: distinct_update)

text \<open>\<^verbatim>\<open>src/main.go\<close>: the keys are the trimmed lines, all of them.\<close>

lemma loadBlacklist_keys:
  "open_err file = None \<Longrightarrow>
   fst ` set (fst (loadBlacklist bl0 file)) = TrimSpace ` set (scan_lines file)"
  by (simp add: loadBlacklist_def keys_foldl_update)

lemma loadBlacklist_distinct:
  "open_err file = None \<Longrightarrow> distinct (map fst (fst (loadBlacklist bl0 file)))"
  by (simp add: loadBlacklist_def distinct_foldl_update)

lemma keys_foldl_socks:
  "fst ` set (foldl (\<lambda>bl text. let line = TrimSpace text
        in if line \<noteq> [] then AList.update line () bl else bl) acc xs)
   = fst ` set acc \<union> (TrimSpace ` set xs - {[]})"
  by (induction xs arbitrary: acc) (auto simp: dom_update Let_def)

text \<open>\<^verbatim>\<open>src/src/main.go\<close>: the keys are the trimmed lines that are not empty.\<close>

lemma loadBlacklist_socks_keys:
  "open_err file = None \<Longrightarrow>
   fst ` set (fst (loadBlacklist_socks bl0 file)) = TrimSpace ` set (scan_lines file) - {[]}"
  by (simp add: loadBlacklist_socks_def keys_foldl_socks)

subsection \<open>The two predicates\<close>

lemma HasPrefix_prefix: "HasPrefix s pfx = prefix pfx s"
  unfolding HasPrefix_def prefix_def
  by (metis append_eq_conv_conj append_take_drop_id length_append le_add1)

lemma isBlocked_iff: "isBlocked bl h \<longleftrightarrow> (\<exists>e \<in> fst ` set bl. prefix e h)"
  by (induction bl h rule: isBlocked.induct) (auto simp: HasPrefix_prefix)

text \<open>The order in which \<^verbatim>\<open>range\<close> visits the keys does not change the result.\<close>

lemma isBlocked_order: "fst ` set bl = fst ` set bl' \<Longrightarrow> isBlocked bl h = isBlocked bl' h"
  by (simp add: isBlocked_iff)

lemma isBlacklisted_iff: "isBlacklisted bl a \<longleftrightarrow> a \<in> fst ` set bl"
  by (simp add: isBlacklisted_def map_of_eq_None_iff)

text \<open>
  C1, as the code has it. \<^verbatim>\<open>isBlocked\<close> of \<^verbatim>\<open>src/main.go\<close> returns true exactly when some
  entry of the blacklist equals the host or is a prefix of it. \<^verbatim>\<open>isBlacklisted\<close> of
  \<^verbatim>\<open>src/src/main.go\<close> returns true exactly when some entry equals the address: an entry
  that is a proper prefix of the address does not block it.
\<close>

theorem blocking_predicates:
  "(isBlocked bl h \<longleftrightarrow> (\<exists>e \<in> fst ` set bl. e = h \<or> prefix e h)) \<and>
   (isBlacklisted bls h \<longleftrightarrow> (\<exists>e \<in> fst ` set bls. e = h))"
  by (auto simp: isBlocked_iff isBlacklisted_iff)

theorem blocking_predicates_witness:
  "isBlocked [(''example.com'', True)] ''example.com:443'' \<and>
   isBlacklisted [(''example.com'', ())] ''example.com''"
  using blocking_predicates [of "[(''example.com'', True)]" "''example.com:443''"
      "[(''example.com'', ())]"]
    blocking_predicates [of "[]" "''example.com''" "[(''example.com'', ())]"]
  by (simp add: HasPrefix_def)

text \<open>C1 as stated fails for \<^verbatim>\<open>isBlacklisted\<close>: the blacklist loaded from the one line
  \<^verbatim>\<open>example.com\<close> has an entry that is a prefix of \<^verbatim>\<open>example.com:443\<close>, and the address is
  not blacklisted.\<close>

theorem isBlacklisted_not_by_prefix:
  "fst (loadBlacklist_socks []
     \<lparr>open_err = None, scan_lines = [''example.com''], scan_err = None\<rparr>)
     = [(''example.com'', ())] \<and>
   prefix ''example.com'' ''example.com:443'' \<and>
   \<not> isBlacklisted [(''example.com'', ())] ''example.com:443''"
  by code_simp

text \<open>
  C4 at a file with an empty line and a line of two spaces. \<^verbatim>\<open>loadBlacklist\<close> of
  \<^verbatim>\<open>src/main.go\<close> stores the empty string as an entry; the one of \<^verbatim>\<open>src/src/main.go\<close>
  skips both lines. Both store \<^verbatim>\<open>example.com\<close> trimmed.
\<close>

theorem loadBlacklist_blank_line:
  "fst (loadBlacklist []
     \<lparr>open_err = None, scan_lines = ['' example.com '', '''', ''  ''], scan_err = None\<rparr>)
     = [(''example.com'', True), ('''', True)] \<and>
   fst (loadBlacklist_socks []
     \<lparr>open_err = None, scan_lines = ['' example.com '', '''', ''  ''], scan_err = None\<rparr>)
     = [(''example.com'', ())]"
  by code_simp

text \<open>
  C9. With the empty string among its entries, the blacklist of \<^verbatim>\<open>src/main.go\<close> blocks
  every host; and a file that opens and has a line that is empty once trimmed loads to
  such a blacklist.
\<close>

theorem empty_entry_blocks_every_host:
  "('''' \<in> fst ` set bl \<longrightarrow> isBlocked bl host) \<and>
   (open_err file = None \<and> line \<in> set (scan_lines file) \<and> TrimSpace line = '''' \<longrightarrow>
      '''' \<in> fst ` set (fst (loadBlacklist bl0 file)) \<and>
      isBlocked (fst (loadBlacklist bl0 file)) host)"
proof -
  have blocks: "isBlocked b host" if "'''' \<in> fst ` set b" for b
    unfolding isBlocked_iff using that by (intro bexI [of _ "''''"]) simp_all
  have "'''' \<in> fst ` set (fst (loadBlacklist bl0 file))"
    if "open_err file = None" and "line \<in> set (scan_lines file)" and "TrimSpace line = ''''"
  proof -
    from that(1)
    have "fst ` set (fst (loadBlacklist bl0 file)) = TrimSpace ` set (scan_lines file)"
      by (rule loadBlacklist_keys)
    with that(2,3) show ?thesis by force
  qed
  with blocks show ?thesis by blast
qed

theorem empty_entry_blocks_every_host_witness:
  "'''' \<in> fst ` set [(''example.com'', True), ('''', True)] \<and>
   isBlocked [(''example.com'', True), ('''', True)] ''golang.org:443'' \<and>
   TrimSpace ''  '' = '''' \<and>
   isBlocked (fst (loadBlacklist []
     \<lparr>open_err = None, scan_lines = [''example.com'', ''  ''], scan_err = None\<rparr>))
     ''golang.org:443''"
proof -
  have t: "TrimSpace ''  '' = ''''"
    by (rule TrimSpace_blank) (simp add: asciiSpace_def)
  have m: "'''' \<in> fst ` set [(''example.com'', True), ('''', True)]"
    by simp
  show ?thesis
    using t m
      empty_entry_blocks_every_host [of "[(''example.com'', True), ('''', True)]"
        "''golang.org:443''"
        "\<lparr>open_err = None, scan_lines = [''example.com'', ''  ''], scan_err = None\<rparr>"
        "''  ''" "[]"]
    by (simp add: HasPrefix_def)
qed

section \<open>The counters\<close>

text \<open>Within the range of an \<^verbatim>\<open>int64\<close>, adding a count that is not negative is exact.\<close>

lemma sint_add_in_range:
  fixes x :: int64
  assumes "0 \<le> n" and "sint x + n < 2 ^ 63"
  shows "sint (x + word_of_int n) = sint x + n"
proof -
  have lo: "- (2 ^ 63) \<le> sint x"
    using sint_ge [of x] by simp
  have eq: "x + word_of_int n = word_of_int (sint x + n)"
    by simp
  have "sint (word_of_int k :: int64) = k" if "- (2 ^ 63) \<le> k" and "k < 2 ^ 63" for k
    using that by (simp add: signed_of_int signed_take_bit_int_eq_self)
  from this [of "sint x + n"] lo assms show ?thesis
    unfolding eq by linarith
qed

text \<open>A counter is left as it was exactly when \<^verbatim>\<open>int64(n)\<close> is zero; for a count below
  \<open>2 ^ 64\<close> in size, that is \<open>n = 0\<close>.\<close>

lemma word_of_int_zero_iff:
  assumes "- (2 ^ 64) < n" and "n < 2 ^ 64"
  shows "(word_of_int n :: int64) = 0 \<longleftrightarrow> n = 0"
proof
  assume "(word_of_int n :: int64) = 0"
  then have "(2 :: int) ^ 64 dvd n"
    by (simp add: word_of_int_eq_0_iff)
  then obtain k where k: "n = 2 ^ 64 * k" ..
  with assms have "k = 0" by (cases "k \<le> 0"; cases "k = 0"; simp; linarith)
  with k show "n = 0" by simp
qed simp

text \<open>
  C3, as the code has it. A call of \<^verbatim>\<open>Write\<close> or \<^verbatim>\<open>Read\<close> on a wrapper hands back the
  count and the error of the underlying call as they are, and adds \<^verbatim>\<open>int64(n)\<close> to its
  counter whether the error is \<^verbatim>\<open>nil\<close> or not; it touches no other counter. The counter
  stays as it was exactly when \<^verbatim>\<open>int64(n)\<close> is zero (for a count of a Go \<^verbatim>\<open>int\<close>: when \<open>n\<close>
  is zero), and it grows by exactly \<open>n\<close> when \<open>n\<close> is not negative and the sum fits an
  \<^verbatim>\<open>int64\<close>.
\<close>

theorem counter_advances_by_reported_count:
  "snd (countingConn_Write c (n, err)) = (n, err) \<and>
   bytesWritten (fst (countingConn_Write c (n, err))) = bytesWritten c + word_of_int n \<and>
   bytesRead (fst (countingConn_Write c (n, err))) = bytesRead c \<and>
   snd (countingConn_Read c (n, err)) = (n, err) \<and>
   bytesRead (fst (countingConn_Read c (n, err))) = bytesRead c + word_of_int n \<and>
   bytesWritten (fst (countingConn_Read c (n, err))) = bytesWritten c \<and>
   countingWriter_Write w (n, err) =
     (w\<lparr>cw_bytesWritten := cw_bytesWritten w + word_of_int n\<rparr>, (n, err)) \<and>
   countingReader_Read r (n, err) =
     (r\<lparr>cr_bytesRead := cr_bytesRead r + word_of_int n\<rparr>, (n, err)) \<and>
   (bytesWritten (fst (countingConn_Write c (n, err))) = bytesWritten c
      \<longleftrightarrow> (word_of_int n :: int64) = 0) \<and>
   (bytesRead (fst (countingConn_Read c (n, err))) = bytesRead c
      \<longleftrightarrow> (word_of_int n :: int64) = 0) \<and>
   (0 \<le> n \<and> sint (bytesWritten c) + n < 2 ^ 63 \<longrightarrow>
      sint (bytesWritten (fst (countingConn_Write c (n, err)))) = sint (bytesWritten c) + n) \<and>
   (0 \<le> n \<and> sint (bytesRead c) + n < 2 ^ 63 \<longrightarrow>
      sint (bytesRead (fst (countingConn_Read c (n, err)))) = sint (bytesRead c) + n) \<and>
   (- (2 ^ 64) < n \<and> n < 2 ^ 64 \<longrightarrow>
      (bytesWritten (fst (countingConn_Write c (n, err))) = bytesWritten c \<longleftrightarrow> n = 0) \<and>
      (bytesRead (fst (countingConn_Read c (n, err))) = bytesRead c \<longleftrightarrow> n = 0))"
  using word_of_int_zero_iff [of n]
  by (simp add: countingConn_Write_def countingConn_Read_def countingWriter_Write_def
      countingReader_Read_def sint_add_in_range)

text \<open>At a partial write of 3 bytes that also reports an error, from a counter at 10.\<close>

theorem counter_advances_by_reported_count_witness:
  "snd (countingConn_Write \<lparr>bytesWritten = 10, bytesRead = 0\<rparr> (3, Some ''broken pipe''))
     = (3, Some ''broken pipe'') \<and>
   sint (bytesWritten (fst (countingConn_Write \<lparr>bytesWritten = 10, bytesRead = 0\<rparr>
     (3, Some ''broken pipe'')))) = 13"
  using counter_advances_by_reported_count
    [of "\<lparr>bytesWritten = 10, bytesRead = 0\<rparr>" 3 "Some ''broken pipe''"]
  by simp

text \<open>C3 as stated fails: a \<^verbatim>\<open>Read\<close> that reports 3 bytes together with an error (the
  underlying \<^verbatim>\<open>Read\<close> may return data and \<^verbatim>\<open>io.EOF\<close> in one call) returns that error and
  still moves the counter from 0 to 3.\<close>

theorem counter_advances_on_error:
  "snd (countingConn_Read new_countingConn (3, Some ''EOF'')) = (3, Some ''EOF'') \<and>
   bytesRead new_countingConn = 0 \<and>
   bytesRead (fst (countingConn_Read new_countingConn (3, Some ''EOF''))) = 3 \<and>
   snd (countingReader_Read new_countingReader (3, Some ''EOF'')) = (3, Some ''EOF'') \<and>
   cr_bytesRead (fst (countingReader_Read new_countingReader (3, Some ''EOF''))) = 3"
  by (simp add: new_countingConn_def countingConn_Read_def new_countingReader_def
      countingReader_Read_def)

subsection \<open>Sequences of calls\<close>

lemma do_calls_snoc: "do_calls c (cs @ [x]) = do_call (do_calls c cs) x"
  by (simp add: do_calls_def)

lemma do_calls_Cons: "do_calls c (x # cs) = do_calls (do_call c x) cs"
  by (simp add: do_calls_def)

lemma do_call_step:
  assumes "in_range c [x]"
  shows "sint (bytesWritten c) \<le> sint (bytesWritten (do_call c x))
       \<and> sint (bytesRead c) \<le> sint (bytesRead (do_call c x))"
proof (cases x)
  case (Write r)
  obtain n err where r: "r = (n, err)" by (cases r)
  from assms Write r have "0 \<le> n" "sint (bytesWritten c) + n < 2 ^ 63" by simp_all
  then have "sint (bytesWritten c + word_of_int n) = sint (bytesWritten c) + n"
    by (rule sint_add_in_range)
  with \<open>0 \<le> n\<close> Write r show ?thesis by (simp add: countingConn_Write_def)
next
  case (Read r)
  obtain n err where r: "r = (n, err)" by (cases r)
  from assms Read r have "0 \<le> n" "sint (bytesRead c) + n < 2 ^ 63" by simp_all
  then have "sint (bytesRead c + word_of_int n) = sint (bytesRead c) + n"
    by (rule sint_add_in_range)
  with \<open>0 \<le> n\<close> Read r show ?thesis by (simp add: countingConn_Read_def)
qed

lemma in_range_append:
  "in_range c (cs @ ds) \<longleftrightarrow> in_range c cs \<and> in_range (do_calls c cs) ds"
proof (induction cs arbitrary: c)
  case Nil
  show ?case by (simp add: do_calls_def)
next
  case (Cons x cs)
  show ?case by (cases x) (simp_all add: Cons do_calls_Cons)
qed

lemma in_range_nth:
  assumes "in_range c cs" and "k < length cs"
  shows "in_range (do_calls c (take k cs)) [cs ! k]"
proof -
  have "cs = take k cs @ (cs ! k) # drop (Suc k) cs"
    using assms(2) by (simp add: id_take_nth_drop)
  with assms(1) have "in_range (do_calls c (take k cs)) ((cs ! k) # drop (Suc k) cs)"
    by (metis in_range_append)
  then show ?thesis by (cases "cs ! k") simp_all
qed

lemma step_monotone:
  assumes "in_range c cs" and "k < length cs"
  shows "sint (bytesWritten (do_calls c (take k cs)))
           \<le> sint (bytesWritten (do_calls c (take (Suc k) cs)))
       \<and> sint (bytesRead (do_calls c (take k cs)))
           \<le> sint (bytesRead (do_calls c (take (Suc k) cs)))"
proof -
  have "take (Suc k) cs = take k cs @ [cs ! k]"
    using assms(2) by (simp add: take_Suc_conv_app_nth)
  then have "do_calls c (take (Suc k) cs) = do_call (do_calls c (take k cs)) (cs ! k)"
    by (simp add: do_calls_snoc)
  with do_call_step [OF in_range_nth [OF assms]] show ?thesis by simp
qed

lemma whole_monotone:
  "in_range c cs \<Longrightarrow>
   sint (bytesWritten c) \<le> sint (bytesWritten (do_calls c cs)) \<and>
   sint (bytesRead c) \<le> sint (bytesRead (do_calls c cs))"
proof (induction cs arbitrary: c)
  case Nil
  show ?case by (simp add: do_calls_def)
next
  case (Cons x cs)
  from Cons.prems have one: "in_range c [x]" and rest: "in_range (do_call c x) cs"
    by (cases x; simp)+
  from do_call_step [OF one] Cons.IH [OF rest] show ?case
    by (simp add: do_calls_Cons)
qed

text \<open>
  C7, as the code has it. Along a sequence of calls in which every reported count is not
  negative and no counter is taken beyond \<open>2 ^ 63 - 1\<close>, each counter after a call is at
  least what it was before the call; counters that start at zero stay at zero or above.
  The same holds for one call of the wrappers of \<^verbatim>\<open>src/src/main.go\<close>.
\<close>

theorem counters_never_decrease_in_range:
  "(in_range c cs \<and> k < length cs \<longrightarrow>
      sint (bytesWritten (do_calls c (take k cs)))
        \<le> sint (bytesWritten (do_calls c (take (Suc k) cs))) \<and>
      sint (bytesRead (do_calls c (take k cs)))
        \<le> sint (bytesRead (do_calls c (take (Suc k) cs)))) \<and>
   (in_range new_countingConn cs \<longrightarrow>
      0 \<le> sint (bytesWritten (do_calls new_countingConn cs)) \<and>
      0 \<le> sint (bytesRead (do_calls new_countingConn cs))) \<and>
   (0 \<le> n \<and> sint (cw_bytesWritten w) + n < 2 ^ 63 \<longrightarrow>
      sint (cw_bytesWritten w) \<le> sint (cw_bytesWritten (fst (countingWriter_Write w (n, err))))) \<and>
   (0 \<le> n \<and> sint (cr_bytesRead r) + n < 2 ^ 63 \<longrightarrow>
      sint (cr_bytesRead r) \<le> sint (cr_bytesRead (fst (countingReader_Read r (n, err)))))"
proof -
  have fresh: "0 \<le> sint (bytesWritten (do_calls new_countingConn cs)) \<and>
      0 \<le> sint (bytesRead (do_calls new_countingConn cs))"
    if "in_range new_countingConn cs"
    using whole_monotone [OF that] by (simp add: new_countingConn_def)
  show ?thesis
    using step_monotone [of c cs k] fresh
    by (simp add: countingWriter_Write_def countingReader_Read_def sint_add_in_range)
qed

theorem counters_never_decrease_in_range_witness:
  "in_range new_countingConn [Write (5, None), Read (0, Some ''EOF''), Write (2, None)] \<and>
   sint (bytesWritten (do_calls new_countingConn [Write (5, None), Read (0, Some ''EOF'')]))
     \<le> sint (bytesWritten (do_calls new_countingConn
          [Write (5, None), Read (0, Some ''EOF''), Write (2, None)])) \<and>
   sint (bytesWritten (do_calls new_countingConn
          [Write (5, None), Read (0, Some ''EOF''), Write (2, None)])) = 7 \<and>
   sint (cw_bytesWritten new_countingWriter)
     \<le> sint (cw_bytesWritten (fst (countingWriter_Write new_countingWriter (4, None)))) \<and>
   sint (cr_bytesRead new_countingReader)
     \<le> sint (cr_bytesRead (fst (countingReader_Read new_countingReader (4, None))))"
proof -
  have r: "in_range new_countingConn [Write (5, None), Read (0, Some ''EOF''), Write (2, None)]"
    by (simp add: new_countingConn_def countingConn_Write_def countingConn_Read_def)
  have v: "sint (bytesWritten (do_calls new_countingConn
          [Write (5, None), Read (0, Some ''EOF''), Write (2, None)])) = 7"
    by (simp add: do_calls_def new_countingConn_def countingConn_Write_def
        countingConn_Read_def)
  show ?thesis
    using r v
      counters_never_decrease_in_range [of new_countingConn
        "[Write (5, None), Read (0, Some ''EOF''), Write (2, None)]" 2 4 new_countingWriter
        None new_countingReader]
    by (simp add: new_countingWriter_def new_countingReader_def)
qed

lemma do_calls_replicate_Write:
  "bytesWritten (do_calls c (replicate k (Write (n, err))))
     = bytesWritten c + of_nat k * word_of_int n"
proof (induction k arbitrary: c)
  case 0
  show ?case by (simp add: do_calls_def)
next
  case (Suc k)
  show ?case
    by (simp add: do_calls_Cons Suc countingConn_Write_def algebra_simps)
qed

text \<open>
  C7 as stated fails where the addition wraps around: after \<open>2 ^ 48 - 1\<close> writes of 32768
  bytes each (the size of the buffer of \<^verbatim>\<open>io.Copy\<close>) the counter of a new wrapper is at
  \<open>2 ^ 63 - 32768\<close>, and one more such write takes it to \<open>- (2 ^ 63)\<close>. It also fails at a
  count below zero, which the wrappers add as it is.
\<close>

theorem counter_decreases:
  "sint (bytesWritten (do_calls new_countingConn (replicate (2 ^ 48 - 1) (Write (32768, None)))))
     = 2 ^ 63 - 32768 \<and>
   sint (bytesWritten (do_calls new_countingConn (replicate (2 ^ 48) (Write (32768, None)))))
     = - (2 ^ 63) \<and>
   sint (bytesRead (do_calls new_countingConn [Read (5, None), Read (- 1, None)]))
     < sint (bytesRead (do_calls new_countingConn [Read (5, None)]))"
  by (simp add: do_calls_replicate_Write)
     (simp add: do_calls_def new_countingConn_def countingConn_Read_def)

section \<open>The handlers\<close>

lemma dialled_append: "dialled (xs @ ys) = dialled xs @ dialled ys"
  by (induction xs rule: dialled.induct) simp_all

lemma effects_append: "effects (xs @ ys) = effects xs @ effects ys"
  by (simp add: effects_def)

lemma effects_Cons: "effects (e # es) = (if is_Log e then effects es else e # effects es)"
  by (simp add: effects_def)

text \<open>The relay adds nothing to the effects of a handler but what the handler does
  when its own copy has returned, and it does that once at most.\<close>

lemma relay_step_trace:
  "(trace (relay_step R W f s t) = trace s \<and> returned (relay_step R W f s t) = returned s) \<or>
   (\<not> returned s \<and> returned (relay_step R W f s t) \<and>
    trace (relay_step R W f s t) = trace s @ f (counters s))"
  by (cases t) (auto simp: relay_step_def split: prod.splits)

lemma relay_run_trace:
  "trace (relay_run R W f s sched) = trace s \<or>
   (\<not> returned s \<and> (\<exists>c. trace (relay_run R W f s sched) = trace s @ f c))"
proof (induction sched arbitrary: s)
  case Nil
  show ?case by (simp add: relay_run_def)
next
  case (Cons t sched)
  have run: "relay_run R W f s (t # sched) = relay_run R W f (relay_step R W f s t) sched"
    by (simp add: relay_run_def)
  from relay_step_trace [of R W f s t] Cons.IH [of "relay_step R W f s t"]
  show ?case unfolding run by auto
qed

lemma relay_connect_trace:
  "trace (relay_connect a env sched) = [] \<or>
   (\<exists>c'. trace (relay_connect a env sched) = finish_connect a c')"
  using relay_run_trace [of raw raw "finish_connect a"
      "relay_init env (new_countingConn, new_countingConn)" sched]
  by (simp add: relay_init_def relay_connect_def)

lemma relay_socks_trace:
  "trace (relay_socks a env sched) = [] \<or>
   (\<exists>c'. trace (relay_socks a env sched) = finish_socks a c')"
  using relay_run_trace [of cr_Read cw_Write "finish_socks a"
      "relay_init env (new_countingReader, new_countingWriter)" sched]
  by (simp add: relay_init_def relay_socks_def)

lemma relay_connect_dialled: "dialled (trace (relay_connect a env sched)) = []"
  using relay_connect_trace [of a env sched]
  by (auto simp: finish_connect_def split: prod.splits)

lemma relay_socks_dialled: "dialled (trace (relay_socks a env sched)) = []"
  using relay_socks_trace [of a env sched]
  by (auto simp: finish_socks_def split: prod.splits)

lemma relay_socks_no_write: "ConnWrite e b \<notin> set (trace (relay_socks a env sched))"
  using relay_socks_trace [of a env sched]
  by (auto simp: finish_socks_def split: prod.splits)

lemma extract_logged:
  "\<exists>msg. fst (extractIPv4FromRemoteAddr net a) = [Log msg]"
  by (simp add: extractIPv4FromRemoteAddr_def Let_def split: sum.splits option.splits)

lemma Contains_colon: "Contains s '':'' \<longleftrightarrow> CHR '':'' \<in> set s"
  by (induction s) (auto simp: HasPrefix_def)

text \<open>
  C5. For a \<^verbatim>\<open>CONNECT\<close> request whose host \<^verbatim>\<open>isBlocked\<close> blocks, the handler's effects
  besides its log lines are the write of the status line \<^verbatim>\<open>HTTP/1.1 418 I'm a teapot\<close>
  with the empty line after it to the client, and the close of the client connection;
  there is no dial.
\<close>

theorem blocked_connect_gets_teapot:
  assumes "readRequest = Inr req" and "Method req = ''CONNECT''"
    and "isBlocked blacklist (Host req)"
  shows "effects (handleClientConnection net blacklist client readRequest env sched)
           = [ConnWrite ClientConn
                (''HTTP/1.1 418 I'm a teapot'' @ [CHR 0x0D, CHR 0x0A, CHR 0x0D, CHR 0x0A]),
              ConnClose ClientConn]
       \<and> dialled (handleClientConnection net blacklist client readRequest env sched) = []"
proof -
  obtain logged remoteAddr
    where ex: "extractIPv4FromRemoteAddr net (RemoteAddr client) = (logged, remoteAddr)"
    by (cases "extractIPv4FromRemoteAddr net (RemoteAddr client)")
  with extract_logged [of net "RemoteAddr client"] obtain msg where "logged = [Log msg]"
    by auto
  with ex assms show ?thesis
    by (simp add: handleClientConnection_def effects_def teapot_def CRLF_def)
qed

theorem blocked_connect_gets_teapot_witness:
  "isBlocked [(''blocked.example'', True)] ''blocked.example:443'' \<and>
   effects (handleClientConnection
      \<lparr>SplitHostPort = (\<lambda>a. Inr (''10.0.0.7'', ''50000'')),
        ParseIP = (\<lambda>h. Some [10, 0, 0, 7]), Dial = (\<lambda>n a. None)\<rparr>
      [(''blocked.example'', True)] \<lparr>RemoteAddr = ''10.0.0.7:50000''\<rparr>
      (Inr \<lparr>Method = ''CONNECT'', Host = ''blocked.example:443''\<rparr>)
      \<lparr>client_reads = [], client_writes = [], server_reads = [], server_writes = []\<rparr> [])
     = [ConnWrite ClientConn
          (''HTTP/1.1 418 I'm a teapot'' @ [CHR 0x0D, CHR 0x0A, CHR 0x0D, CHR 0x0A]),
        ConnClose ClientConn]"
proof -
  have b: "isBlocked [(''blocked.example'', True)] ''blocked.example:443''"
    by (simp add: HasPrefix_def)
  show ?thesis
    using b
      blocked_connect_gets_teapot [of "Inr \<lparr>Method = ''CONNECT'', Host = ''blocked.example:443''\<rparr>"
        "\<lparr>Method = ''CONNECT'', Host = ''blocked.example:443''\<rparr>"
        "[(''blocked.example'', True)]"
        "\<lparr>SplitHostPort = (\<lambda>a. Inr (''10.0.0.7'', ''50000'')),
          ParseIP = (\<lambda>h. Some [10, 0, 0, 7]), Dial = (\<lambda>n a. None)\<rparr>"
        "\<lparr>RemoteAddr = ''10.0.0.7:50000''\<rparr>"
        "\<lparr>client_reads = [], client_writes = [], server_reads = [], server_writes = []\<rparr>"
        "[]"]
    by simp
qed

text \<open>
  C6. For a \<^verbatim>\<open>CONNECT\<close> request whose host is not blocked, the handler dials once, over
  \<^verbatim>\<open>tcp\<close>: the host with \<^verbatim>\<open>:443\<close> appended when it has no colon, the host as it is when it
  has one. The dial is the first effect besides the log lines.
\<close>

theorem connect_dials_default_port:
  assumes "readRequest = Inr req" and "Method req = ''CONNECT''"
    and "\<not> isBlocked blacklist (Host req)"
  shows "dialled (handleClientConnection net blacklist client readRequest env sched)
           = [if CHR '':'' \<in> set (Host req) then Host req else Host req @ '':443'']
       \<and> take 1 (effects (handleClientConnection net blacklist client readRequest env sched))
           = [NetDial ''tcp''
                (if CHR '':'' \<in> set (Host req) then Host req else Host req @ '':443'')]"
proof -
  obtain logged remoteAddr
    where ex: "extractIPv4FromRemoteAddr net (RemoteAddr client) = (logged, remoteAddr)"
    by (cases "extractIPv4FromRemoteAddr net (RemoteAddr client)")
  with extract_logged [of net "RemoteAddr client"] obtain msg where "logged = [Log msg]"
    by auto
  with ex assms show ?thesis
    by (simp add: handleClientConnection_def effects_def Contains_colon Let_def
        relay_connect_dialled split: option.splits)
qed

theorem connect_dials_default_port_witness:
  "\<not> isBlocked [(''blocked.example'', True)] ''allowed.example'' \<and>
   dialled (handleClientConnection
      \<lparr>SplitHostPort = (\<lambda>a. Inr (''10.0.0.7'', ''50000'')),
        ParseIP = (\<lambda>h. Some [10, 0, 0, 7]), Dial = (\<lambda>n a. None)\<rparr>
      [(''blocked.example'', True)] \<lparr>RemoteAddr = ''10.0.0.7:50000''\<rparr>
      (Inr \<lparr>Method = ''CONNECT'', Host = ''allowed.example''\<rparr>)
      \<lparr>client_reads = [], client_writes = [], server_reads = [], server_writes = []\<rparr> [])
     = [''allowed.example:443'']"
proof -
  have b: "\<not> isBlocked [(''blocked.example'', True)] ''allowed.example''"
    by (simp add: HasPrefix_def)
  show ?thesis
    using b
      connect_dials_default_port [of "Inr \<lparr>Method = ''CONNECT'', Host = ''allowed.example''\<rparr>"
        "\<lparr>Method = ''CONNECT'', Host = ''allowed.example''\<rparr>"
        "[(''blocked.example'', True)]"
        "\<lparr>SplitHostPort = (\<lambda>a. Inr (''10.0.0.7'', ''50000'')),
          ParseIP = (\<lambda>h. Some [10, 0, 0, 7]), Dial = (\<lambda>n a. None)\<rparr>"
        "\<lparr>RemoteAddr = ''10.0.0.7:50000''\<rparr>"
        "\<lparr>client_reads = [], client_writes = [], server_reads = [], server_writes = []\<rparr>"
        "[]"]
    by simp
qed

lemma accept_loop_started:
  "Go_handleSOCKS conn targetAddr \<in> set (accept_loop accepts) \<Longrightarrow>
   Inr conn \<in> set accepts \<and> targetAddr = RemoteAddr conn"
  by (induction accepts rule: accept_loop.induct) auto

lemma handleSOCKS_dialled:
  "set (dialled (handleSOCKS net socks bl conn targetAddr env sched)) \<subseteq> {targetAddr}"
  by (simp add: handleSOCKS_def relay_socks_dialled split: sum.splits option.splits prod.splits)

lemma handleSOCKS_teapot:
  "ConnWrite ClientConn teapot \<in> set (handleSOCKS net socks bl conn targetAddr env sched) \<longleftrightarrow>
   (\<exists>host port. SplitHostPort net targetAddr = Inr (host, port) \<and> isBlacklisted bl host)"
  by (simp add: handleSOCKS_def relay_socks_no_write split: sum.splits option.splits prod.splits)

text \<open>
  C8. Every \<^verbatim>\<open>handleSOCKS\<close> that the accept loop starts is given the remote address of its
  connection as \<^verbatim>\<open>targetAddr\<close>. In such a call, whatever the client sends and however the
  relay is scheduled, a dial goes to that address only, and the client is refused exactly
  when the host that \<^verbatim>\<open>net.SplitHostPort\<close> finds in that address is blacklisted.
\<close>

theorem socks_target_is_client_address:
  "(Go_handleSOCKS conn targetAddr \<in> set (accept_loop accepts) \<longrightarrow>
      Inr conn \<in> set accepts \<and> targetAddr = RemoteAddr conn) \<and>
   set (dialled (handleSOCKS net socks bl conn (RemoteAddr conn) env sched))
     \<subseteq> {RemoteAddr conn} \<and>
   (ConnWrite ClientConn teapot \<in> set (handleSOCKS net socks bl conn (RemoteAddr conn) env sched)
      \<longleftrightarrow> (\<exists>host port. SplitHostPort net (RemoteAddr conn) = Inr (host, port) \<and>
            isBlacklisted bl host))"
  using accept_loop_started [of conn targetAddr accepts]
    handleSOCKS_dialled [of net socks bl conn "RemoteAddr conn" env sched]
    handleSOCKS_teapot [of net socks bl conn "RemoteAddr conn" env sched]
  by blast

text \<open>The accept loop at a failed \<^verbatim>\<open>Accept\<close> and a connection from \<^verbatim>\<open>10.0.0.7:50000\<close> that
  sends 3 bytes, with \<^verbatim>\<open>10.0.0.9\<close> blacklisted.\<close>

theorem socks_target_is_client_address_witness:
  "Go_handleSOCKS \<lparr>RemoteAddr = ''10.0.0.7:50000''\<rparr> ''10.0.0.7:50000''
     \<in> set (accept_loop [Inl ''too many open files'', Inr \<lparr>RemoteAddr = ''10.0.0.7:50000''\<rparr>]) \<and>
   dialled (handleSOCKS
      \<lparr>SplitHostPort = (\<lambda>a. Inr (''10.0.0.7'', ''50000'')),
        ParseIP = (\<lambda>h. None), Dial = (\<lambda>n a. None)\<rparr>
      \<lparr>SOCKS5 = (\<lambda>n a. None), SOCKS5_Dial = (\<lambda>n a. None)\<rparr>
      [(''10.0.0.9'', ())] \<lparr>RemoteAddr = ''10.0.0.7:50000''\<rparr> ''10.0.0.7:50000''
      \<lparr>client_reads = [(3, None)], client_writes = [], server_reads = [],
        server_writes = []\<rparr> [Background])
     = [''10.0.0.7:50000'']"
proof -
  have d: "dialled (handleSOCKS
      \<lparr>SplitHostPort = (\<lambda>a. Inr (''10.0.0.7'', ''50000'')),
        ParseIP = (\<lambda>h. None), Dial = (\<lambda>n a. None)\<rparr>
      \<lparr>SOCKS5 = (\<lambda>n a. None), SOCKS5_Dial = (\<lambda>n a. None)\<rparr>
      [(''10.0.0.9'', ())] \<lparr>RemoteAddr = ''10.0.0.7:50000''\<rparr> ''10.0.0.7:50000''
      \<lparr>client_reads = [(3, None)], client_writes = [], server_reads = [],
        server_writes = []\<rparr> [Background])
     = [''10.0.0.7:50000'']"
    by (simp add: handleSOCKS_def isBlacklisted_def relay_socks_dialled)
  show ?thesis
    using d
      socks_target_is_client_address [of "\<lparr>RemoteAddr = ''10.0.0.7:50000''\<rparr>"
        "''10.0.0.7:50000''"
        "[Inl ''too many open files'', Inr \<lparr>RemoteAddr = ''10.0.0.7:50000''\<rparr>]"
        "\<lparr>SplitHostPort = (\<lambda>a. Inr (''10.0.0.7'', ''50000'')),
          ParseIP = (\<lambda>h. None), Dial = (\<lambda>n a. None)\<rparr>"
        "\<lparr>SOCKS5 = (\<lambda>n a. None), SOCKS5_Dial = (\<lambda>n a. None)\<rparr>"
        "[(''10.0.0.9'', ())]"
        "\<lparr>client_reads = [(3, None)], client_writes = [], server_reads = [],
          server_writes = []\<rparr>"
        "[Background]"]
    by simp
qed

section \<open>\<^verbatim>\<open>extractIPv4FromRemoteAddr\<close>\<close>

lemma To4_Some: "To4 ip = Some p4 \<Longrightarrow> length p4 = 4 \<and> IP_String ip = dotted p4"
  by (auto simp: To4_def IP_String_def split: if_splits)

lemma length4_quad:
  assumes "length (p :: IP) = 4"
  shows "\<exists>a b c d. p = [a, b, c, d]"
proof -
  from assms obtain a p1 where p: "p = a # p1" and "length p1 = 3"
    by (cases p) auto
  then obtain b p2 where p1: "p1 = b # p2" and "length p2 = 2"
    by (cases p1) auto
  then obtain c p3 where p2: "p2 = c # p3" and "length p3 = 1"
    by (cases p2) auto
  then obtain d where "p3 = [d]"
    by (cases p3) auto
  with p p1 p2 show ?thesis by simp
qed

text \<open>An address that \<^const>\<open>To4\<close> rejects and \<^const>\<open>IsLoopback\<close> accepts is \<^verbatim>\<open>::1\<close>.\<close>

lemma loopback_not_v4:
  assumes "To4 ip = None" and "IsLoopback ip"
  shows "ip = IPv6loopback"
proof -
  from assms have eq: "IP_Equal ip IPv6loopback"
    by (simp add: IsLoopback_def)
  from assms(1) have "length ip \<noteq> 4"
    by (auto simp: To4_def split: if_splits)
  with eq show ?thesis
    by (auto simp: IP_Equal_def IPv6loopback_def split: if_splits)
qed

lemma IP_String_loopback: "IP_String IPv6loopback = ''::1''"
  by code_simp

lemma mapped_branch_dead:
  "\<not> (To4 ip = None \<and> IsLoopback ip \<and> HasPrefix (IP_String ip) ''::ffff:'')"
proof
  assume a: "To4 ip = None \<and> IsLoopback ip \<and> HasPrefix (IP_String ip) ''::ffff:''"
  then have "ip = IPv6loopback"
    by (simp add: loopback_not_v4)
  with a have "HasPrefix ''::1'' ''::ffff:''"
    by (simp add: IP_String_loopback)
  then show False
    by (simp add: HasPrefix_def)
qed

lemma replicate_10_zero: "replicate 10 (0 :: 8 word) = [0, 0, 0, 0, 0, 0, 0, 0, 0, 0]"
  by (simp add: numeral_eq_Suc)

lemma To4_mapped: "To4 (v4InV6Prefix @ [a, b, c, d]) = Some [a, b, c, d]"
  by (simp add: To4_def v4InV6Prefix_def replicate_10_zero)

subsection \<open>The dotted decimal form\<close>

text \<open>Each of the four parts of \<^const>\<open>dotted\<close> is the decimal form of a number below 256:
  one to three decimal digits, with no leading zero but for \<^verbatim>\<open>0\<close> itself.\<close>

lemma digit_decimal: "d < 10 \<Longrightarrow> digit d \<in> set ''0123456789''"
proof -
  assume "d < 10"
  then have "d \<in> {0, 1, 2, 3, 4, 5, 6, 7, 8, 9}" by auto
  then show ?thesis by (auto simp: digit_def)
qed

lemma digit_zero: "d < 10 \<Longrightarrow> digit d = CHR ''0'' \<longleftrightarrow> d = 0"
proof -
  assume "d < 10"
  then have "d \<in> {0, 1, 2, 3, 4, 5, 6, 7, 8, 9}" by auto
  then show ?thesis by (auto simp: digit_def)
qed

lemma uitoa_nonempty: "uitoa n \<noteq> []"
  by (subst uitoa.simps) simp

lemma uitoa_digits: "set (uitoa n) \<subseteq> set ''0123456789''"
proof (induction n rule: uitoa.induct)
  case (1 n)
  show ?case
  proof (cases "n < 10")
    case True
    then show ?thesis
      using digit_decimal [of n] by (subst uitoa.simps) simp
  next
    case False
    have "n mod 10 < 10" by simp
    with False "1" digit_decimal [of "n mod 10"] show ?thesis
      by (subst uitoa.simps) simp
  qed
qed

lemma uitoa_no_leading_zero: "0 < n \<Longrightarrow> hd (uitoa n) \<noteq> CHR ''0''"
proof (induction n rule: uitoa.induct)
  case (1 n)
  show ?case
  proof (cases "n < 10")
    case True
    with "1.prems" show ?thesis
      using digit_zero [of n] by (subst uitoa.simps) simp
  next
    case False
    then have "0 < n div 10" by simp
    with False "1.IH" have "hd (uitoa (n div 10)) \<noteq> CHR ''0''" by simp
    with False show ?thesis
      by (subst uitoa.simps) (simp add: uitoa_nonempty)
  qed
qed

lemma uitoa_byte_length: "n < 256 \<Longrightarrow> length (uitoa n) \<le> 3"
proof -
  assume n: "n < 256"
  have one: "length (uitoa k) = 1" if "k < 10" for k
    using that by (subst uitoa.simps) simp
  have two: "length (uitoa k) \<le> 2" if "k < 100" for k
  proof (cases "k < 10")
    case True
    then show ?thesis by (simp add: one)
  next
    case False
    from that have "k div 10 < 10" by simp
    with False show ?thesis
      by (subst uitoa.simps) (simp add: one)
  qed
  show ?thesis
  proof (cases "n < 10")
    case True
    then show ?thesis by (simp add: one)
  next
    case False
    from n have "n div 10 < 100" by simp
    with False two [of "n div 10"] show ?thesis
      by (subst uitoa.simps) simp
  qed
qed

subsection \<open>The result\<close>

text \<open>
  C10. Whatever the parsers answer, the result is the input as it was or the dotted
  decimal form of four bytes. The branch that cuts \<^verbatim>\<open>::ffff:\<close> off is never taken: its
  condition is false for every address that fails the test with \<^verbatim>\<open>To4\<close> before it. An
  IPv4-mapped IPv6 address passes that test.
\<close>

theorem extractIPv4_result:
  "(snd (extractIPv4FromRemoteAddr net remoteAddr) = remoteAddr \<or>
    (\<exists>a b c d. snd (extractIPv4FromRemoteAddr net remoteAddr) = dotted [a, b, c, d])) \<and>
   \<not> (To4 ip = None \<and> IsLoopback ip \<and> HasPrefix (IP_String ip) ''::ffff:'') \<and>
   To4 (v4InV6Prefix @ [a, b, c, d]) = Some [a, b, c, d]"
proof -
  have quad: "\<exists>a b c d. IP_String x = dotted [a, b, c, d]" if "To4 x = Some p4" for x p4
    using To4_Some [OF that] length4_quad [of p4] by auto
  have "snd (extractIPv4FromRemoteAddr net remoteAddr) = remoteAddr \<or>
    (\<exists>a b c d. snd (extractIPv4FromRemoteAddr net remoteAddr) = dotted [a, b, c, d])"
  proof (cases "SplitHostPort net remoteAddr")
    case (Inl err)
    then show ?thesis by (simp add: extractIPv4FromRemoteAddr_def)
  next
    case (Inr hp)
    obtain host port where hp: "hp = (host, port)" by (cases hp)
    show ?thesis
    proof (cases "ParseIP net host")
      case None
      with Inr hp show ?thesis by (simp add: extractIPv4FromRemoteAddr_def)
    next
      case (Some x)
      show ?thesis
      proof (cases "To4 x")
        case None
        with mapped_branch_dead [of x] have "\<not> (IsLoopback x \<and> HasPrefix (IP_String x) ''::ffff:'')"
          by simp
        with None Inr hp Some show ?thesis
          by (auto simp: extractIPv4FromRemoteAddr_def Let_def)
      next
        case (Some p4)
        from quad [OF this] Some Inr hp \<open>ParseIP net host = Some x\<close> show ?thesis
          by (simp add: extractIPv4FromRemoteAddr_def)
      qed
    qed
  qed
  with mapped_branch_dead [of ip] To4_mapped [of a b c d] show ?thesis by blast
qed

text \<open>At the remote address \<^verbatim>\<open>[::ffff:10.0.0.7]:50000\<close>, parsed to its 16 bytes.\<close>

theorem extractIPv4_result_witness:
  "snd (extractIPv4FromRemoteAddr
      \<lparr>SplitHostPort = (\<lambda>a. Inr (''::ffff:10.0.0.7'', ''50000'')),
        ParseIP = (\<lambda>h. Some (v4InV6Prefix @ [10, 0, 0, 7])), Dial = (\<lambda>n a. None)\<rparr>
      ''[::ffff:10.0.0.7]:50000'') = ''10.0.0.7'' \<and>
   To4 (v4InV6Prefix @ [10, 0, 0, 7]) = Some [10, 0, 0, 7] \<and>
   dotted [10, 0, 0, 7] = ''10.0.0.7''"
proof -
  have d: "dotted [10, 0, 0, 7] = ''10.0.0.7''"
    by code_simp
  have "To4 (v4InV6Prefix @ [10, 0, 0, 7]) = Some [10, 0, 0, 7]"
    using extractIPv4_result [of _ _ _ 10 0 0 7] by simp
  moreover from this d have "snd (extractIPv4FromRemoteAddr
      \<lparr>SplitHostPort = (\<lambda>a. Inr (''::ffff:10.0.0.7'', ''50000'')),
        ParseIP = (\<lambda>h. Some (v4InV6Prefix @ [10, 0, 0, 7])), Dial = (\<lambda>n a. None)\<rparr>
      ''[::ffff:10.0.0.7]:50000'') = ''10.0.0.7''"
    by (simp add: extractIPv4FromRemoteAddr_def IP_String_def v4InV6Prefix_def)
  ultimately show ?thesis using d by simp
qed

section \<open>The relay\<close>

lemma relay_run_Cons:
  "relay_run R W f s (t # sched) = relay_run R W f (relay_step R W f s t) sched"
  by (simp add: relay_run_def)

lemma relay_run_append:
  "relay_run R W f s (sched @ sched') = relay_run R W f (relay_run R W f s sched) sched'"
  by (simp add: relay_run_def)

text \<open>A copy between connections that are not wrapped moves no counter, so the counters
  of \<^verbatim>\<open>handleClientConnection\<close> stay at zero, whatever is copied.\<close>

lemma copy_step_raw: "snd (copy_step raw raw (cp, c)) = c"
  by (simp add: copy_step_def raw_def Let_def split: copy_stage.splits list.splits prod.splits)

lemma relay_step_raw: "counters (relay_step raw raw f s t) = counters s"
  using copy_step_raw [of "background_copy s" "counters s"]
  by (cases t) (auto simp: relay_step_def split: prod.splits)

lemma relay_run_raw: "counters (relay_run raw raw f s sched) = counters s"
  by (induction sched arbitrary: s) (simp_all add: relay_run_def relay_step_raw)

lemma relay_connect_counters:
  "counters (relay_connect a env sched) = (new_countingConn, new_countingConn)"
  by (simp add: relay_connect_def relay_run_raw relay_init_def)

text \<open>Once the background copy has returned, the counters are final: no later step of
  either task moves them.\<close>

lemma relay_step_after_background:
  assumes "stage (background_copy s) = Returned"
  shows "stage (background_copy (relay_step R W f s t)) = Returned \<and>
         counters (relay_step R W f s t) = counters s"
  using assms by (cases t) (auto simp: relay_step_def copy_step_def split: prod.splits)

lemma relay_run_after_background:
  "stage (background_copy s) = Returned \<Longrightarrow>
   stage (background_copy (relay_run R W f s sched)) = Returned \<and>
   counters (relay_run R W f s sched) = counters s"
proof (induction sched arbitrary: s)
  case Nil
  then show ?case by (simp add: relay_run_def)
next
  case (Cons t sched)
  from relay_step_after_background [OF Cons.prems, of R W f t]
    Cons.IH [of "relay_step R W f s t"]
  show ?case by (simp add: relay_run_Cons)
qed

text \<open>
  C2 at a client that sends 5 bytes and then ends its stream, and a server that ends its
  stream at once. In \<^verbatim>\<open>handleSOCKS\<close>, when the handler's goroutine takes the first two
  steps, its copy returns at the end of the server's stream and it logs and returns
  (closing \<^verbatim>\<open>targetConn\<close>) while the background copy has not made its first \<^verbatim>\<open>Read\<close>: the
  log line says 0 bytes in. The background copy then reads the 5 bytes, which takes
  \<^verbatim>\<open>bytesRead\<close> to 5, and fails to write them to the closed connection. The relay of
  \<^verbatim>\<open>handleClientConnection\<close> returns in the same way before its background copy.
\<close>

theorem relay_returns_before_background_copy:
  "(let env = \<lparr>client_reads = [(5, None), (0, Some ''EOF'')], client_writes = [],
                server_reads = [(0, Some ''EOF'')],
                server_writes = [(0, Some ''use of closed network connection'')]\<rparr>;
        early = relay_socks ''10.0.0.7:50000'' env [Handler, Handler];
        late = relay_socks ''10.0.0.7:50000'' env [Handler, Handler, Background, Background];
        connect = relay_connect ''10.0.0.7'' env [Handler, Handler]
    in returned early \<and>
       stage (background_copy early) = Reading \<and>
       trace early =
         [Log (''SOCKS request to 10.0.0.7:50000 transferred 0 bytes in and 0 bytes out'' @
               [CHR 0x0A]),
          ConnClose ServerConn] \<and>
       trace late = trace early \<and>
       stage (background_copy late) = Returned \<and>
       counters late = (\<lparr>cr_bytesRead = 5\<rparr>, \<lparr>cw_bytesWritten = 0\<rparr>) \<and>
       returned connect \<and>
       stage (background_copy connect) = Reading \<and>
       trace connect =
         [Log ''[Client 10.0.0.7] Data transferred: sent 0 bytes, received 0 bytes'',
          ConnClose ServerConn, ConnClose ClientConn])"
  by code_simp

end
